theory Spec2Isabelle
  imports
    Main
    "HOL-Library.Word"
    "HOL-Library.Finite_Map"
    "HOL-Library.Char_ord"
    "HOL-Library.List_Lexorder"
begin

section \<open>The reverse DNS cache (package ebpf)\<close>

subsection \<open>Time\<close>

text \<open>
  A \<^verbatim>\<open>time.Time\<close> is modelled as the integer number of nanoseconds since the Unix
  epoch (the range limits of Go's \<^verbatim>\<open>Time\<close> are not modelled).
  A \<^verbatim>\<open>time.Duration\<close> is a signed 64-bit count of nanoseconds, so the negation
  \<^verbatim>\<open>-c.ttl\<close> in \<^verbatim>\<open>expire\<close> wraps as it does in Go.
  \<^verbatim>\<open>Time.Unix()\<close> is the number of whole seconds since the epoch, rounded down.
\<close>

type_synonym Time = int
type_synonym Duration = "64 word"

definition Time_Add :: "Time \<Rightarrow> Duration \<Rightarrow> Time" where
  "Time_Add t d = t + sint d"

definition Time_Unix :: "Time \<Rightarrow> int" where
  "Time_Unix t = t div 1000000000"

subsection \<open>Cache entries: \<^verbatim>\<open>dnsCacheVal\<close>\<close>

record dnsCacheVal =
  names :: "string list"
  expiration :: int

text \<open>
  \<^verbatim>\<open>sort.Search(n, f)\<close> of Go's standard library, the binary search that
  \<^verbatim>\<open>sort.SearchStrings\<close> calls: the loop on \<^verbatim>\<open>i, j\<close> with
  \<^verbatim>\<open>h := int(uint(i+j) >> 1)\<close>.
\<close>

function Search_loop :: "(nat \<Rightarrow> bool) \<Rightarrow> nat \<Rightarrow> nat \<Rightarrow> nat" where
  "Search_loop f i j =
     (if i < j then
        (let h = (i + j) div 2 in
         if \<not> f h then Search_loop f (h + 1) j else Search_loop f i h)
      else i)"
  by pat_completeness auto
termination
  by (relation "measure (\<lambda>(f, i, j). j - i)") auto

declare Search_loop.simps [simp del]

definition Search :: "nat \<Rightarrow> (nat \<Rightarrow> bool) \<Rightarrow> nat" where
  "Search n f = Search_loop f 0 n"

text \<open>
  \<^verbatim>\<open>sort.SearchStrings(a, x) = sort.Search(len(a), func(i) { return a[i] >= x })\<close>.
  Go compares strings bytewise, which is the lexicographic order on \<^typ>\<open>char list\<close>.
\<close>

definition SearchStrings :: "string list \<Rightarrow> string \<Rightarrow> nat" where
  "SearchStrings a x = Search (length a) (\<lambda>i. x \<le> a ! i)"

text \<open>\<^verbatim>\<open>sort.Strings\<close> sorts in increasing order.\<close>

definition Strings :: "string list \<Rightarrow> string list" where
  "Strings a = sort a"

definition merge :: "dnsCacheVal \<Rightarrow> string \<Rightarrow> dnsCacheVal" where
  "merge v nm =
     (if SearchStrings (names v) nm < length (names v) then v
      else v\<lparr>names := Strings (names v @ [nm])\<rparr>)"

text \<open>\<^verbatim>\<open>copy\<close> returns a fresh slice holding the entry's names.\<close>

definition copy :: "dnsCacheVal \<Rightarrow> string list" where
  "copy v = names v"

subsection \<open>The cache\<close>

text \<open>
  The keys of the Go map \<^verbatim>\<open>translation.ips\<close> are given as the list of addresses in
  the order in which the \<^verbatim>\<open>range\<close> loop of \<^verbatim>\<open>Add\<close> visits them. The address
  type \<^verbatim>\<open>util.Address\<close> is a type parameter.
\<close>

record 'a translation =
  name :: string
  ips :: "'a list"

text \<open>
  The fields \<^verbatim>\<open>mux\<close> and \<^verbatim>\<open>exit\<close> are left out. The field \<^verbatim>\<open>size\<close> is
  called \<open>size_c\<close> here.
\<close>

record 'a reverseDNSCache =
  data :: "('a, dnsCacheVal) fmap"
  ttl :: Duration
  size_c :: int
  len :: "64 word"
  lookups :: "64 word"
  resolved :: "64 word"

text \<open>\<^verbatim>\<open>len(c.data)\<close>\<close>

definition len_data :: "('a, dnsCacheVal) fmap \<Rightarrow> nat" where
  "len_data d = fcard (fmdom d)"

text \<open>\<^verbatim>\<open>newReverseDNSCache\<close>, without the ticker and the goroutine.\<close>

definition newReverseDNSCache :: "int \<Rightarrow> Duration \<Rightarrow> 'a reverseDNSCache" where
  "newReverseDNSCache sz t =
     \<lparr>data = fmempty, ttl = t, size_c = sz, len = 0, lookups = 0, resolved = 0\<rparr>"

text \<open>The body of the loop of \<^verbatim>\<open>Add\<close> for one address.\<close>

definition Add_body :: "string \<Rightarrow> int \<Rightarrow> 'a \<Rightarrow> ('a, dnsCacheVal) fmap \<Rightarrow> ('a, dnsCacheVal) fmap" where
  "Add_body nm exp addr d =
     (case fmlookup d addr of
        Some val \<Rightarrow> fmupd addr (merge (val\<lparr>expiration := exp\<rparr>) nm) d
      | None \<Rightarrow> fmupd addr \<lparr>names = [nm], expiration = exp\<rparr> d)"

text \<open>\<^verbatim>\<open>Add\<close>: the translation pointer may be nil (\<open>None\<close>).\<close>

definition Add :: "'a reverseDNSCache \<Rightarrow> 'a translation option \<Rightarrow> Time \<Rightarrow> bool \<times> 'a reverseDNSCache" where
  "Add c tr now =
     (case tr of
        None \<Rightarrow> (False, c)
      | Some t \<Rightarrow>
          if size_c c \<le> int (len_data (data c)) then (False, c)
          else
            (let exp = Time_Unix (Time_Add now (ttl c));
                 d = fold (Add_body (name t) exp) (ips t) (data c)
             in (True, c\<lparr>data := d, len := of_nat (len_data d)\<rparr>)))"

text \<open>
  Modelled from the spec: \<^verbatim>\<open>ConnectionStats\<close> and \<^verbatim>\<open>NamePair\<close> are declared
  elsewhere in the package. A connection has a source and a destination address; a name
  pair has the names of the source and those of the destination, each a slice that may
  be nil (\<open>None\<close>).
\<close>

record 'a ConnectionStats =
  Source :: 'a
  Dest :: 'a

record NamePair =
  Source_names :: "string list option"
  Dest_names :: "string list option"

definition getNamesForIP ::
  "('a, dnsCacheVal) fmap \<Rightarrow> 'a \<Rightarrow> int \<Rightarrow> string list option \<times> ('a, dnsCacheVal) fmap" where
  "getNamesForIP d ip exp =
     (case fmlookup d ip of
        None \<Rightarrow> (None, d)
      | Some val \<Rightarrow>
          (let val' = val\<lparr>expiration := exp\<rparr>
           in (Some (copy val'), fmupd ip val' d)))"

text \<open>
  The loop of \<^verbatim>\<open>Get\<close>: the name pairs in the order of the connections, the
  number of resolved destinations, and the map after the lookups.
\<close>

fun Get_loop ::
  "('a, dnsCacheVal) fmap \<Rightarrow> int \<Rightarrow> 'a ConnectionStats list \<Rightarrow>
   NamePair list \<times> nat \<times> ('a, dnsCacheVal) fmap" where
  "Get_loop d exp [] = ([], 0, d)"
| "Get_loop d exp (conn # conns) =
     (let (s, d1) = getNamesForIP d (Source conn) exp;
          (t, d2) = getNamesForIP d1 (Dest conn) exp;
          (ns, r, d3) = Get_loop d2 exp conns
      in (\<lparr>Source_names = s, Dest_names = t\<rparr> # ns,
          (if t \<noteq> None then r + 1 else r), d3))"

definition Get ::
  "'a reverseDNSCache \<Rightarrow> 'a ConnectionStats list \<Rightarrow> Time \<Rightarrow> NamePair list \<times> 'a reverseDNSCache" where
  "Get c conns now =
     (if length conns = 0 then ([], c)
      else
        (let exp = Time_Unix (Time_Add now (ttl c));
             (ns, r, d) = Get_loop (data c) exp conns
         in (ns, c\<lparr>data := d,
                   lookups := lookups c + of_nat (length conns),
                   resolved := resolved c + of_nat r\<rparr>)))"

text \<open>
  \<^verbatim>\<open>expire\<close>, with the reading of the clock (\<^verbatim>\<open>time.Now()\<close>) as the argument
  \<open>start\<close>. The loop deletes every entry of the map whose expiration is not greater
  than the deadline.
\<close>

definition expire :: "'a reverseDNSCache \<Rightarrow> Time \<Rightarrow> 'a reverseDNSCache" where
  "expire c start =
     (let deadline = Time_Unix (Time_Add start (- ttl c));
          d = fmfilter (\<lambda>addr. case fmlookup (data c) addr of
                                  Some val \<Rightarrow> deadline < expiration val
                                | None \<Rightarrow> False) (data c)
      in c\<lparr>data := d, len := of_nat (len_data d)\<rparr>)"

text \<open>
  The goroutine that \<^verbatim>\<open>newReverseDNSCache\<close> starts calls \<^verbatim>\<open>expire\<close> on every
  tick of its ticker: the sweeps at the clock readings \<open>ts\<close>, in this order.
\<close>

fun ticker_loop :: "'a reverseDNSCache \<Rightarrow> Time list \<Rightarrow> 'a reverseDNSCache" where
  "ticker_loop c [] = c"
| "ticker_loop c (t # ts) = ticker_loop (expire c t) ts"

text \<open>
  The entry that the loop body of \<^verbatim>\<open>Add\<close> leaves at an address, from what the map
  held there before.
\<close>

definition Add_entry :: "string \<Rightarrow> int \<Rightarrow> dnsCacheVal option \<Rightarrow> dnsCacheVal" where
  "Add_entry nm exp old =
     (case old of
        Some val \<Rightarrow> merge (val\<lparr>expiration := exp\<rparr>) nm
      | None \<Rightarrow> \<lparr>names = [nm], expiration = exp\<rparr>)"

text \<open>The addresses that a list of connections looks up.\<close>

definition conn_addrs :: "'a ConnectionStats list \<Rightarrow> 'a set" where
  "conn_addrs conns = Source ` set conns \<union> Dest ` set conns"

text \<open>The name pair that a map holds for a connection.\<close>

definition pair_of :: "('a, dnsCacheVal) fmap \<Rightarrow> 'a ConnectionStats \<Rightarrow> NamePair" where
  "pair_of d conn =
     \<lparr>Source_names = map_option names (fmlookup d (Source conn)),
      Dest_names = map_option names (fmlookup d (Dest conn))\<rparr>"

text \<open>Every entry's name list is sorted and free of duplicates.\<close>

definition names_sorted :: "('a, dnsCacheVal) fmap \<Rightarrow> bool" where
  "names_sorted d = fmpred (\<lambda>_ v. sorted (names v) \<and> distinct (names v)) d"

section \<open>The statistics poller of the snooper\<close>

text \<open>
  The telemetry counters of \<^verbatim>\<open>SocketFilterSnooper\<close>; the fields \<^verbatim>\<open>source\<close>,
  \<^verbatim>\<open>parser\<close>, \<^verbatim>\<open>cache\<close>, \<^verbatim>\<open>exit\<close> and \<^verbatim>\<open>wg\<close> are left out.
\<close>

record SocketFilterSnooper =
  captured :: "64 word"
  processed :: "64 word"
  dropped :: "64 word"
  polls :: "64 word"
  decodingErrors :: "64 word"

text \<open>
  What the capture source reports on a tick: \<^verbatim>\<open>afpacket.Stats\<close> with its fields
  \<^verbatim>\<open>Packets\<close> and \<^verbatim>\<open>Polls\<close> (both \<^verbatim>\<open>int64\<close>), and the kernel's socket
  statistics with \<^verbatim>\<open>Packets()\<close> and \<^verbatim>\<open>Drops()\<close> after their conversion to
  \<^verbatim>\<open>int64\<close>.
\<close>

record Stats =
  Packets :: "64 word"
  Polls :: "64 word"

record SocketStats =
  socket_Packets :: "64 word"
  socket_Drops :: "64 word"

text \<open>The local variables of \<^verbatim>\<open>pollStats\<close>.\<close>

record pollStats_vars =
  prevPolls :: "64 word"
  prevProcessed :: "64 word"
  prevCaptured :: "64 word"
  prevDropped :: "64 word"

text \<open>
  One tick of the ticker: \<open>sourceStats\<close> is the result of \<^verbatim>\<open>s.source.Stats()\<close>,
  \<open>res\<close> that of \<^verbatim>\<open>s.source.SocketStats()\<close>, \<open>Inl\<close> when it returns an error.
\<close>

definition pollStats_tick ::
  "SocketFilterSnooper \<times> pollStats_vars \<Rightarrow> Stats \<Rightarrow> 'e + SocketStats \<Rightarrow>
   SocketFilterSnooper \<times> pollStats_vars" where
  "pollStats_tick sp sourceStats res =
     (case res of
        Inl err \<Rightarrow> sp
      | Inr socketStats \<Rightarrow>
          (let (s, p) = sp in
           (s\<lparr>polls := polls s + (Polls sourceStats - prevPolls p),
              processed := processed s + (Packets sourceStats - prevProcessed p),
              captured := captured s + (socket_Packets socketStats - prevCaptured p),
              dropped := dropped s + (socket_Drops socketStats - prevDropped p)\<rparr>,
            \<lparr>prevPolls = Polls sourceStats,
             prevProcessed = Packets sourceStats,
             prevCaptured = socket_Packets socketStats,
             prevDropped = socket_Drops socketStats\<rparr>)))"

text \<open>
  What the loop of \<^verbatim>\<open>pollStats\<close> selects on: a tick with what the source reports,
  or the exit signal. \<open>Swap\<close> is a call of \<^verbatim>\<open>GetStats\<close> between two ticks, which
  resets the counters.
\<close>

datatype 'e event = Tick Stats "'e + SocketStats" | Swap | Exit

definition GetStats_reset :: "SocketFilterSnooper \<Rightarrow> SocketFilterSnooper" where
  "GetStats_reset s =
     s\<lparr>polls := 0, processed := 0, captured := 0, dropped := 0, decodingErrors := 0\<rparr>"

fun pollStats_loop ::
  "SocketFilterSnooper \<times> pollStats_vars \<Rightarrow> 'e event list \<Rightarrow> SocketFilterSnooper \<times> pollStats_vars" where
  "pollStats_loop sp [] = sp"
| "pollStats_loop sp (Tick sourceStats res # evs) =
     pollStats_loop (pollStats_tick sp sourceStats res) evs"
| "pollStats_loop sp (Swap # evs) = pollStats_loop (GetStats_reset (fst sp), snd sp) evs"
| "pollStats_loop sp (Exit # evs) = sp"

definition pollStats :: "SocketFilterSnooper \<Rightarrow> 'e event list \<Rightarrow> SocketFilterSnooper \<times> pollStats_vars" where
  "pollStats s evs =
     pollStats_loop
       (s, \<lparr>prevPolls = 0, prevProcessed = 0, prevCaptured = 0, prevDropped = 0\<rparr>) evs"

text \<open>A tick on which reading the socket statistics fails.\<close>

fun failed :: "'e event \<Rightarrow> bool" where
  "failed (Tick sourceStats (Inl err)) = True"
| "failed ev = False"

section \<open>Properties of the binary search and of \<^verbatim>\<open>merge\<close>\<close>

lemma Search_loop_bounds: "i \<le> j \<Longrightarrow> i \<le> Search_loop f i j \<and> Search_loop f i j \<le> j"
proof (induction f i j rule: Search_loop.induct)
  case (1 f i j)
  show ?case
  proof (cases "i < j")
    case False
    with "1.prems" show ?thesis by (simp add: Search_loop.simps)
  next
    case True
    let ?h = "(i + j) div 2"
    from True have h: "i \<le> ?h" "?h < j" by simp_all
    show ?thesis
    proof (cases "f ?h")
      case True
      with \<open>i < j\<close> have "Search_loop f i j = Search_loop f i ?h"
        by (subst Search_loop.simps) (simp add: Let_def)
      moreover have "i \<le> Search_loop f i ?h \<and> Search_loop f i ?h \<le> ?h"
        using "1.IH"(2) [OF \<open>i < j\<close> refl] True h by simp
      ultimately show ?thesis using h by simp
    next
      case False
      with \<open>i < j\<close> have "Search_loop f i j = Search_loop f (?h + 1) j"
        by (subst Search_loop.simps) (simp add: Let_def)
      moreover have "?h + 1 \<le> Search_loop f (?h + 1) j \<and> Search_loop f (?h + 1) j \<le> j"
        using "1.IH"(1) [OF \<open>i < j\<close> refl] False h by simp
      ultimately show ?thesis using h by simp
    qed
  qed
qed

lemma Search_loop_hit: "i \<le> j \<Longrightarrow> Search_loop f i j < j \<Longrightarrow> f (Search_loop f i j)"
proof (induction f i j rule: Search_loop.induct)
  case (1 f i j)
  show ?case
  proof (cases "i < j")
    case False
    with "1.prems" show ?thesis by (simp add: Search_loop.simps)
  next
    case True
    let ?h = "(i + j) div 2"
    from True have h: "i \<le> ?h" "?h < j" by simp_all
    show ?thesis
    proof (cases "f ?h")
      case True
      with \<open>i < j\<close> have eq: "Search_loop f i j = Search_loop f i ?h"
        by (subst Search_loop.simps) (simp add: Let_def)
      have le: "Search_loop f i ?h \<le> ?h"
        using Search_loop_bounds [OF h(1)] by simp
      show ?thesis
      proof (cases "Search_loop f i ?h < ?h")
        case True
        then show ?thesis
          using "1.IH"(2) [OF \<open>i < j\<close> refl] \<open>f ?h\<close> h eq by simp
      next
        case False
        with le have "Search_loop f i ?h = ?h" by simp
        with \<open>f ?h\<close> eq show ?thesis by simp
      qed
    next
      case False
      with \<open>i < j\<close> have eq: "Search_loop f i j = Search_loop f (?h + 1) j"
        by (subst Search_loop.simps) (simp add: Let_def)
      then show ?thesis
        using "1.IH"(1) [OF \<open>i < j\<close> refl] False h "1.prems" by simp
    qed
  qed
qed

lemma Search_loop_miss: "i \<le> j \<Longrightarrow> i < Search_loop f i j \<Longrightarrow> \<not> f (Search_loop f i j - 1)"
proof (induction f i j rule: Search_loop.induct)
  case (1 f i j)
  show ?case
  proof (cases "i < j")
    case False
    with "1.prems" show ?thesis by (simp add: Search_loop.simps)
  next
    case True
    let ?h = "(i + j) div 2"
    from True have h: "i \<le> ?h" "?h < j" by simp_all
    show ?thesis
    proof (cases "f ?h")
      case True
      with \<open>i < j\<close> have eq: "Search_loop f i j = Search_loop f i ?h"
        by (subst Search_loop.simps) (simp add: Let_def)
      then show ?thesis
        using "1.IH"(2) [OF \<open>i < j\<close> refl] True h "1.prems" by simp
    next
      case False
      with \<open>i < j\<close> have eq: "Search_loop f i j = Search_loop f (?h + 1) j"
        by (subst Search_loop.simps) (simp add: Let_def)
      have ge: "?h + 1 \<le> Search_loop f (?h + 1) j"
        using Search_loop_bounds [of "?h + 1" j f] h by simp
      show ?thesis
      proof (cases "?h + 1 < Search_loop f (?h + 1) j")
        case True
        then show ?thesis
          using "1.IH"(1) [OF \<open>i < j\<close> refl] \<open>\<not> f ?h\<close> h eq by simp
      next
        case False
        with ge have "Search_loop f (?h + 1) j = ?h + 1" by simp
        with \<open>\<not> f ?h\<close> eq show ?thesis by simp
      qed
    qed
  qed
qed

lemma SearchStrings_le: "SearchStrings a x \<le> length a"
  using Search_loop_bounds [of 0 "length a"] by (simp add: SearchStrings_def Search_def)

lemma SearchStrings_hit: "SearchStrings a x < length a \<Longrightarrow> x \<le> a ! SearchStrings a x"
  using Search_loop_hit [of 0 "length a" "\<lambda>i. x \<le> a ! i"]
  by (simp add: SearchStrings_def Search_def)

lemma SearchStrings_miss_sorted:
  assumes "sorted a" and "SearchStrings a x = length a"
  shows "\<forall>y \<in> set a. y < x"
proof (cases "a = []")
  case True
  then show ?thesis by simp
next
  case False
  then have pos: "0 < length a" by simp
  have "\<not> x \<le> a ! (SearchStrings a x - 1)"
    using Search_loop_miss [of 0 "length a" "\<lambda>i. x \<le> a ! i"] pos assms(2)
    by (simp add: SearchStrings_def Search_def)
  with assms(2) have last: "a ! (length a - 1) < x" by simp
  show ?thesis
  proof
    fix y assume "y \<in> set a"
    then obtain k where k: "k < length a" "a ! k = y" by (auto simp: in_set_conv_nth)
    then have "a ! k \<le> a ! (length a - 1)"
      using assms(1) pos by (intro sorted_nth_mono) simp_all
    with k last show "y < x" by simp
  qed
qed

lemma SearchStrings_member_sorted:
  assumes "sorted a" and "x \<in> set a"
  shows "SearchStrings a x < length a"
proof (rule ccontr)
  assume "\<not> SearchStrings a x < length a"
  with SearchStrings_le [of a x] have "SearchStrings a x = length a" by simp
  from SearchStrings_miss_sorted [OF assms(1) this] assms(2) show False by auto
qed

lemma merge_idem: "merge (merge v nm) nm = merge v nm"
proof (cases "SearchStrings (names v) nm < length (names v)")
  case True
  then show ?thesis by (simp add: merge_def)
next
  case False
  let ?ns = "Strings (names v @ [nm])"
  have "SearchStrings ?ns nm < length ?ns"
    by (rule SearchStrings_member_sorted) (simp_all add: Strings_def)
  with False show ?thesis by (simp add: merge_def)
qed

lemma expiration_merge: "expiration (merge v nm) = expiration v"
  by (simp add: merge_def)

lemma merge_expiration_update:
  "merge (v\<lparr>expiration := e\<rparr>) nm = (merge v nm)\<lparr>expiration := e\<rparr>"
  by (simp add: merge_def)

lemma merge_singleton: "names v = [nm] \<Longrightarrow> merge v nm = v"
  by (simp add: merge_def SearchStrings_def Search_def Search_loop.simps)

lemma set_names_merge:
  "set (names (merge v nm)) = set (names v) \<or> set (names (merge v nm)) = insert nm (set (names v))"
  by (simp add: merge_def Strings_def)

lemma merge_sorted_distinct:
  assumes "sorted (names v)" and "distinct (names v)"
  shows "sorted (names (merge v nm)) \<and> distinct (names (merge v nm))"
proof (cases "SearchStrings (names v) nm < length (names v)")
  case True
  with assms show ?thesis by (simp add: merge_def)
next
  case False
  with SearchStrings_le [of "names v" nm] have "SearchStrings (names v) nm = length (names v)"
    by simp
  from SearchStrings_miss_sorted [OF assms(1) this] have "nm \<notin> set (names v)" by auto
  with False assms show ?thesis by (simp add: merge_def Strings_def)
qed

section \<open>The loops of \<^verbatim>\<open>Add\<close> and \<^verbatim>\<open>Get\<close>\<close>

lemma Add_body_eq: "Add_body nm exp addr d = fmupd addr (Add_entry nm exp (fmlookup d addr)) d"
  by (simp add: Add_body_def Add_entry_def split: option.splits)

lemma fmlookup_Add_body:
  "fmlookup (Add_body nm exp b d) a =
     (if b = a then Some (Add_entry nm exp (fmlookup d b)) else fmlookup d a)"
  by (simp add: Add_body_eq)

lemma Add_entry_idem: "Add_entry nm exp (Some (Add_entry nm exp old)) = Add_entry nm exp old"
proof (cases old)
  case None
  then show ?thesis by (simp add: Add_entry_def merge_singleton)
next
  case (Some val)
  then show ?thesis
    by (simp add: Add_entry_def merge_expiration_update merge_idem)
qed

lemma expiration_Add_entry: "expiration (Add_entry nm exp old) = exp"
  by (cases old) (simp_all add: Add_entry_def expiration_merge)

lemma fmlookup_Add_loop:
  "fmlookup (fold (Add_body nm exp) as d) a =
     (if a \<in> set as then Some (Add_entry nm exp (fmlookup d a)) else fmlookup d a)"
proof (induction as arbitrary: d)
  case Nil
  then show ?case by simp
next
  case (Cons b as)
  have "fmlookup (fold (Add_body nm exp) (b # as) d) a =
          fmlookup (fold (Add_body nm exp) as (Add_body nm exp b d)) a"
    by simp
  also have "\<dots> = (if a \<in> set as then Some (Add_entry nm exp (fmlookup (Add_body nm exp b d) a))
                    else fmlookup (Add_body nm exp b d) a)"
    by (rule Cons.IH)
  also have "\<dots> = (if a \<in> set (b # as) then Some (Add_entry nm exp (fmlookup d a)) else fmlookup d a)"
    by (simp add: fmlookup_Add_body Add_entry_idem)
  finally show ?case .
qed

lemma fmdom_Add_body: "fmdom (Add_body nm exp b d) = finsert b (fmdom d)"
  by (simp add: Add_body_eq)

lemma fmdom_Add_loop: "fmdom (fold (Add_body nm exp) as d) = fmdom d |\<union>| fset_of_list as"
  by (induction as arbitrary: d) (auto simp: fmdom_Add_body)

lemma getNamesForIP_eq:
  "getNamesForIP d ip exp =
     (map_option names (fmlookup d ip),
      case fmlookup d ip of None \<Rightarrow> d | Some val \<Rightarrow> fmupd ip (val\<lparr>expiration := exp\<rparr>) d)"
  by (simp add: getNamesForIP_def copy_def Let_def split: option.splits)

lemma fmlookup_getNamesForIP:
  "fmlookup (snd (getNamesForIP d ip exp)) a =
     (if a = ip then map_option (expiration_update (\<lambda>_. exp)) (fmlookup d a) else fmlookup d a)"
  by (auto simp: getNamesForIP_eq split: option.splits)

lemma Get_loop_names: "fst (Get_loop d exp conns) = map (pair_of d) conns"
proof (induction conns arbitrary: d)
  case Nil
  then show ?case by simp
next
  case (Cons conn conns)
  obtain s d1 where g1: "getNamesForIP d (Source conn) exp = (s, d1)" by (cases "getNamesForIP d (Source conn) exp")
  obtain t d2 where g2: "getNamesForIP d1 (Dest conn) exp = (t, d2)" by (cases "getNamesForIP d1 (Dest conn) exp")
  have d1: "\<And>a. fmlookup d1 a = (if a = Source conn then map_option (expiration_update (\<lambda>_. exp)) (fmlookup d a) else fmlookup d a)"
    using fmlookup_getNamesForIP [of d "Source conn" exp] g1 by simp
  have d2: "\<And>a. fmlookup d2 a = (if a = Dest conn then map_option (expiration_update (\<lambda>_. exp)) (fmlookup d1 a) else fmlookup d1 a)"
    using fmlookup_getNamesForIP [of d1 "Dest conn" exp] g2 by simp
  have nm: "\<And>a. map_option names (fmlookup d2 a) = map_option names (fmlookup d a)"
    by (simp add: d1 d2 option.map_comp comp_def)
  have s: "s = map_option names (fmlookup d (Source conn))"
    using g1 by (simp add: getNamesForIP_eq)
  have "t = map_option names (fmlookup d1 (Dest conn))"
    using g2 by (simp add: getNamesForIP_eq)
  also have "\<dots> = map_option names (fmlookup d (Dest conn))"
    by (simp add: d1 option.map_comp comp_def)
  finally have t: "t = map_option names (fmlookup d (Dest conn))" .
  have "map (pair_of d2) conns = map (pair_of d) conns"
    by (simp add: pair_of_def nm)
  with Cons.IH [of d2] have ih: "fst (Get_loop d2 exp conns) = map (pair_of d) conns" by simp
  obtain ns r d3 where g3: "Get_loop d2 exp conns = (ns, r, d3)" by (cases "Get_loop d2 exp conns")
  with ih have "ns = map (pair_of d) conns" by simp
  then show ?case
    by (simp add: g1 g2 g3 s t pair_of_def)
qed

lemma Get_loop_data:
  "fmlookup (snd (snd (Get_loop d exp conns))) a =
     (if a \<in> conn_addrs conns then map_option (expiration_update (\<lambda>_. exp)) (fmlookup d a)
      else fmlookup d a)"
proof (induction conns arbitrary: d)
  case Nil
  then show ?case by (simp add: conn_addrs_def)
next
  case (Cons conn conns)
  obtain s d1 where g1: "getNamesForIP d (Source conn) exp = (s, d1)" by (cases "getNamesForIP d (Source conn) exp")
  obtain t d2 where g2: "getNamesForIP d1 (Dest conn) exp = (t, d2)" by (cases "getNamesForIP d1 (Dest conn) exp")
  have d1: "\<And>a. fmlookup d1 a = (if a = Source conn then map_option (expiration_update (\<lambda>_. exp)) (fmlookup d a) else fmlookup d a)"
    using fmlookup_getNamesForIP [of d "Source conn" exp] g1 by simp
  have d2: "\<And>a. fmlookup d2 a = (if a = Dest conn then map_option (expiration_update (\<lambda>_. exp)) (fmlookup d1 a) else fmlookup d1 a)"
    using fmlookup_getNamesForIP [of d1 "Dest conn" exp] g2 by simp
  obtain ns r d3 where g3: "Get_loop d2 exp conns = (ns, r, d3)" by (cases "Get_loop d2 exp conns")
  have "snd (snd (Get_loop d exp (conn # conns))) = snd (snd (Get_loop d2 exp conns))"
    by (simp add: g1 g2 g3)
  then show ?case
    by (simp add: Cons.IH d1 d2 conn_addrs_def option.map_comp comp_def)
qed

lemma Get_loop_resolved:
  "fst (snd (Get_loop d exp conns)) = length (filter (\<lambda>conn. Dest conn |\<in>| fmdom d) conns)"
proof (induction conns arbitrary: d)
  case Nil
  then show ?case by simp
next
  case (Cons conn conns)
  obtain s d1 where g1: "getNamesForIP d (Source conn) exp = (s, d1)" by (cases "getNamesForIP d (Source conn) exp")
  obtain t d2 where g2: "getNamesForIP d1 (Dest conn) exp = (t, d2)" by (cases "getNamesForIP d1 (Dest conn) exp")
  have d1: "\<And>a. fmlookup d1 a = (if a = Source conn then map_option (expiration_update (\<lambda>_. exp)) (fmlookup d a) else fmlookup d a)"
    using fmlookup_getNamesForIP [of d "Source conn" exp] g1 by simp
  have d2: "\<And>a. fmlookup d2 a = (if a = Dest conn then map_option (expiration_update (\<lambda>_. exp)) (fmlookup d1 a) else fmlookup d1 a)"
    using fmlookup_getNamesForIP [of d1 "Dest conn" exp] g2 by simp
  have dom: "\<And>a. a |\<in>| fmdom d2 \<longleftrightarrow> a |\<in>| fmdom d"
    by (simp add: fmlookup_dom_iff d1 d2)
  have dom1: "\<And>a. a |\<in>| fmdom d1 \<longleftrightarrow> a |\<in>| fmdom d"
    by (simp add: fmlookup_dom_iff d1)
  have "t = map_option names (fmlookup d1 (Dest conn))"
    using g2 by (simp add: getNamesForIP_eq)
  then have "t \<noteq> None \<longleftrightarrow> Dest conn |\<in>| fmdom d1"
    by (simp add: fmlookup_dom_iff)
  with dom1 have t: "t \<noteq> None \<longleftrightarrow> Dest conn |\<in>| fmdom d" by simp
  obtain ns r d3 where g3: "Get_loop d2 exp conns = (ns, r, d3)" by (cases "Get_loop d2 exp conns")
  have ih: "r = length (filter (\<lambda>conn. Dest conn |\<in>| fmdom d) conns)"
    using Cons.IH [of d2] g3 by (simp add: dom)
  show ?case
  proof (cases "Dest conn |\<in>| fmdom d")
    case True
    with t obtain y where "t = Some y" by auto
    with True show ?thesis by (simp add: g1 g2 g3 ih)
  next
    case False
    with t have "t = None" by auto
    with False show ?thesis by (simp add: g1 g2 g3 ih)
  qed
qed

section \<open>The results of \<^verbatim>\<open>Add\<close> and \<^verbatim>\<open>Get\<close>\<close>

lemma Get_eq:
  "Get c conns now =
     (map (pair_of (data c)) conns,
      if conns = [] then c
      else c\<lparr>data := snd (snd (Get_loop (data c) (Time_Unix (Time_Add now (ttl c))) conns)),
             lookups := lookups c + of_nat (length conns),
             resolved := resolved c +
               of_nat (length (filter (\<lambda>conn. Dest conn |\<in>| fmdom (data c)) conns))\<rparr>)"
proof (cases "conns = []")
  case True
  then show ?thesis by (simp add: Get_def)
next
  case False
  let ?exp = "Time_Unix (Time_Add now (ttl c))"
  obtain ns r d where g: "Get_loop (data c) ?exp conns = (ns, r, d)"
    by (cases "Get_loop (data c) ?exp conns")
  have "ns = map (pair_of (data c)) conns"
    using Get_loop_names [of "data c" ?exp conns] g by simp
  moreover have "r = length (filter (\<lambda>conn. Dest conn |\<in>| fmdom (data c)) conns)"
    using Get_loop_resolved [of "data c" ?exp conns] g by simp
  ultimately show ?thesis using False g by (simp add: Get_def)
qed

lemma fmlookup_Get:
  "fmlookup (data (snd (Get c conns now))) a =
     (if a \<in> conn_addrs conns
      then map_option (expiration_update (\<lambda>_. Time_Unix (Time_Add now (ttl c)))) (fmlookup (data c) a)
      else fmlookup (data c) a)"
  by (cases "conns = []") (simp_all add: Get_eq Get_loop_data conn_addrs_def)

lemma ttl_Get: "ttl (snd (Get c conns now)) = ttl c"
  by (simp add: Get_eq)

lemma Add_rejected:
  "tr = None \<or> size_c c \<le> int (len_data (data c)) \<Longrightarrow> Add c tr now = (False, c)"
  by (auto simp: Add_def split: option.splits)

lemma Add_accepted:
  assumes "int (len_data (data c)) < size_c c"
  shows "Add c (Some t) now =
     (True, c\<lparr>data := fold (Add_body (name t) (Time_Unix (Time_Add now (ttl c)))) (ips t) (data c),
              len := of_nat (len_data (fold (Add_body (name t) (Time_Unix (Time_Add now (ttl c))))
                                        (ips t) (data c)))\<rparr>)"
  using assms by (simp add: Add_def Let_def)

lemma fmlookup_Add:
  assumes "int (len_data (data c)) < size_c c"
  shows "fmlookup (data (snd (Add c (Some t) now))) a =
     (if a \<in> set (ips t)
      then Some (Add_entry (name t) (Time_Unix (Time_Add now (ttl c))) (fmlookup (data c) a))
      else fmlookup (data c) a)"
  by (simp add: Add_accepted [OF assms] fmlookup_Add_loop)

lemma ttl_Add: "ttl (snd (Add c tr now)) = ttl c"
  by (cases tr) (simp_all add: Add_def Let_def)

lemma Add_entry_sorted_distinct:
  assumes "\<And>v. old = Some v \<Longrightarrow> sorted (names v) \<and> distinct (names v)"
  shows "sorted (names (Add_entry nm exp old)) \<and> distinct (names (Add_entry nm exp old))"
proof (cases old)
  case None
  then show ?thesis by (simp add: Add_entry_def)
next
  case (Some v)
  with assms have "sorted (names (v\<lparr>expiration := exp\<rparr>))" "distinct (names (v\<lparr>expiration := exp\<rparr>))"
    by simp_all
  from merge_sorted_distinct [OF this] Some show ?thesis by (simp add: Add_entry_def)
qed

lemma names_sorted_Add:
  assumes "names_sorted (data c)"
  shows "names_sorted (data (snd (Add c tr now)))"
proof (cases "tr = None \<or> size_c c \<le> int (len_data (data c))")
  case True
  with assms show ?thesis by (simp add: Add_rejected)
next
  case False
  then obtain t where t: "tr = Some t" and below: "int (len_data (data c)) < size_c c" by auto
  have old: "\<And>a v. fmlookup (data c) a = Some v \<Longrightarrow> sorted (names v) \<and> distinct (names v)"
    using assms by (auto simp: names_sorted_def fmpred_iff)
  show ?thesis
    unfolding names_sorted_def fmpred_iff t
  proof (intro allI impI)
    fix a v
    assume v: "fmlookup (data (snd (Add c (Some t) now))) a = Some v"
    show "sorted (names v) \<and> distinct (names v)"
    proof (cases "a \<in> set (ips t)")
      case True
      with v have "v = Add_entry (name t) (Time_Unix (Time_Add now (ttl c))) (fmlookup (data c) a)"
        by (simp add: fmlookup_Add [OF below])
      then show ?thesis using Add_entry_sorted_distinct [OF old] by simp
    next
      case False
      with v have "fmlookup (data c) a = Some v" by (simp add: fmlookup_Add [OF below])
      then show ?thesis by (rule old)
    qed
  qed
qed

lemma merge_Add_entry: "merge (Add_entry nm exp old) nm = Add_entry nm exp old"
  by (cases old) (simp_all add: Add_entry_def merge_singleton merge_idem)

lemma names_Add_entry_again:
  "names (Add_entry nm exp' (Some (Add_entry nm exp old))) = names (Add_entry nm exp old)"
proof -
  have "Add_entry nm exp' (Some (Add_entry nm exp old)) =
          (merge (Add_entry nm exp old) nm)\<lparr>expiration := exp'\<rparr>"
    by (simp add: Add_entry_def merge_expiration_update)
  then show ?thesis by (simp add: merge_Add_entry)
qed

section \<open>The sweep\<close>

lemma sint_neg_Duration:
  fixes d :: Duration
  assumes "- 9223372036854775808 < sint d"
  shows "sint (- d) = - sint d"
proof -
  have "sint d < 2 ^ (LENGTH(64) - 1)" by (rule sint_lt)
  then have "sint d < 9223372036854775808" by simp
  with assms have "signed_take_bit 63 (- sint d) = - sint d"
    by (intro signed_take_bit_int_eq_self) simp_all
  then show ?thesis by (simp add: sint_word_ariths)
qed

lemma fmdom_expire:
  "a |\<in>| fmdom (data (expire c t)) \<longleftrightarrow>
     (\<exists>v. fmlookup (data c) a = Some v \<and> Time_Unix (Time_Add t (- ttl c)) < expiration v)"
  by (auto simp: expire_def Let_def fmlookup_dom_iff split: option.splits)

lemma Time_Unix_mono: "s \<le> t \<Longrightarrow> Time_Unix s \<le> Time_Unix t"
  by (simp add: Time_Unix_def zdiv_mono1)

lemma Time_Unix_next_second: "Time_Unix (t + 1000000000) = Time_Unix t + 1"
  by (simp add: Time_Unix_def)

lemma touched_entry:
  assumes "(int (len_data (data c)) < size_c c \<and> a \<in> set (ips tr) \<and> c1 = snd (Add c (Some tr) t0)) \<or>
     (a |\<in>| fmdom (data c) \<and> a \<in> conn_addrs conns \<and> c1 = snd (Get c conns t0))"
  shows "\<exists>v. fmlookup (data c1) a = Some v \<and> expiration v = Time_Unix (Time_Add t0 (ttl c)) \<and>
             ttl c1 = ttl c"
  using assms
proof (elim disjE conjE)
  assume below: "int (len_data (data c)) < size_c c" and a: "a \<in> set (ips tr)"
    and c1: "c1 = snd (Add c (Some tr) t0)"
  then show ?thesis
    by (simp add: fmlookup_Add [OF below] expiration_Add_entry ttl_Add)
next
  assume dom: "a |\<in>| fmdom (data c)" and a: "a \<in> conn_addrs conns"
    and c1: "c1 = snd (Get c conns t0)"
  from dom obtain v0 where "fmlookup (data c) a = Some v0" by (auto simp: fmlookup_dom_iff)
  with a c1 show ?thesis by (simp add: fmlookup_Get ttl_Get)
qed

lemma ttl_expire: "ttl (expire c t) = ttl c"
  by (simp add: expire_def Let_def)

lemma fmlookup_expire_kept:
  assumes "fmlookup (data c) a = Some v"
    and "Time_Unix (Time_Add t (- ttl c)) < expiration v"
  shows "fmlookup (data (expire c t)) a = Some v"
  using assms by (simp add: expire_def Let_def)

lemma fmlookup_ticker_loop_kept:
  assumes "fmlookup (data c) a = Some v"
    and "\<forall>t \<in> set ts. Time_Unix (Time_Add t (- ttl c)) < expiration v"
  shows "fmlookup (data (ticker_loop c ts)) a = Some v"
  using assms
proof (induction ts arbitrary: c)
  case Nil
  then show ?case by simp
next
  case (Cons t ts)
  from Cons.prems have "fmlookup (data (expire c t)) a = Some v"
    by (intro fmlookup_expire_kept) simp_all
  moreover from Cons.prems
  have "\<forall>s \<in> set ts. Time_Unix (Time_Add s (- ttl (expire c t))) < expiration v"
    by (simp add: ttl_expire)
  ultimately show ?case using Cons.IH [of "expire c t"] by simp
qed

lemma sweep_before_expiry_keeps:
  assumes "1000000000 \<le> sint (ttl c)" and "t \<le> now + sint (ttl c)"
  shows "Time_Unix (Time_Add t (- ttl c)) < Time_Unix (Time_Add now (ttl c))"
proof -
  let ?T = "sint (ttl c)"
  from assms(1) have "- 9223372036854775808 < ?T" by simp
  then have neg: "sint (- ttl c) = - ?T" by (rule sint_neg_Duration)
  from assms have "(t - ?T) + 1000000000 \<le> now + ?T" by simp
  then have "Time_Unix ((t - ?T) + 1000000000) \<le> Time_Unix (now + ?T)" by (rule Time_Unix_mono)
  then have "Time_Unix (t - ?T) < Time_Unix (now + ?T)"
    by (simp only: Time_Unix_next_second)
  then show ?thesis by (simp add: Time_Add_def neg)
qed

section \<open>Failed ticks of the statistics poller\<close>

lemma pollStats_loop_skip:
  "pollStats_loop sp evs = pollStats_loop sp (filter (\<lambda>ev. \<not> failed ev) evs)"
proof (induction sp evs rule: pollStats_loop.induct)
  case (2 sp sourceStats res evs)
  then show ?case by (cases res) (simp_all add: pollStats_tick_def)
qed simp_all

section \<open>The claims\<close>

subsection \<open>C1\<close>

text \<open>
  Claim C1, as the code has it. When the map holds at least \<^verbatim>\<open>size\<close> keys,
  \<^verbatim>\<open>Add\<close> returns false and leaves the cache as it is, whatever the translation:
  a translation with a new address stores nothing, and a translation with an address
  that is already a key is rejected as well, so that its entry keeps its expiration and
  its names.
\<close>

theorem Add_at_capacity_rejects_all:
  "size_c c \<le> int (len_data (data c)) \<Longrightarrow> Add c tr now = (False, c)"
  by (simp add: Add_rejected)

theorem Add_at_capacity_rejects_all_witness:
  "size_c \<lparr>data = fmupd (1::nat) \<lparr>names = [''a''], expiration = 0\<rparr> fmempty,
           ttl = 1000000000, size_c = 1, len = 1, lookups = 0, resolved = 0\<rparr>
     \<le> int (len_data (data \<lparr>data = fmupd (1::nat) \<lparr>names = [''a''], expiration = 0\<rparr> fmempty,
           ttl = 1000000000, size_c = 1, len = 1, lookups = 0, resolved = 0\<rparr>)) \<and>
   Add \<lparr>data = fmupd (1::nat) \<lparr>names = [''a''], expiration = 0\<rparr> fmempty,
        ttl = 1000000000, size_c = 1, len = 1, lookups = 0, resolved = 0\<rparr>
       (Some \<lparr>name = ''b'', ips = [2]\<rparr>) 5000000000 =
     (False, \<lparr>data = fmupd (1::nat) \<lparr>names = [''a''], expiration = 0\<rparr> fmempty,
              ttl = 1000000000, size_c = 1, len = 1, lookups = 0, resolved = 0\<rparr>)"
proof -
  have h: "size_c \<lparr>data = fmupd (1::nat) \<lparr>names = [''a''], expiration = 0\<rparr> fmempty,
           ttl = 1000000000, size_c = 1, len = 1, lookups = 0, resolved = 0\<rparr>
     \<le> int (len_data (data \<lparr>data = fmupd (1::nat) \<lparr>names = [''a''], expiration = 0\<rparr> fmempty,
           ttl = 1000000000, size_c = 1, len = 1, lookups = 0, resolved = 0\<rparr>))"
    by (simp add: len_data_def fcard_fempty fcard_finsert_if)
  from h Add_at_capacity_rejects_all [OF h, of "Some \<lparr>name = ''b'', ips = [2]\<rparr>" 5000000000]
  show ?thesis by simp
qed

text \<open>
  Claim C1 as stated fails: with \<^verbatim>\<open>size = 1\<close> and the one key \<open>1\<close> in the map,
  \<^verbatim>\<open>Add\<close> of the name \<open>b\<close> for the address \<open>1\<close> at 5 s with a ttl of 1 s
  returns false; the entry keeps the expiration 0 (not 6) and the names \<open>[a]\<close>.
\<close>

theorem Add_existing_at_capacity_counterexample:
  "size_c \<lparr>data = fmupd (1::nat) \<lparr>names = [''a''], expiration = 0\<rparr> fmempty,
           ttl = 1000000000, size_c = 1, len = 1, lookups = 0, resolved = 0\<rparr>
     \<le> int (len_data (data \<lparr>data = fmupd (1::nat) \<lparr>names = [''a''], expiration = 0\<rparr> fmempty,
           ttl = 1000000000, size_c = 1, len = 1, lookups = 0, resolved = 0\<rparr>)) \<and>
   (1::nat) |\<in>| fmdom (data \<lparr>data = fmupd (1::nat) \<lparr>names = [''a''], expiration = 0\<rparr> fmempty,
           ttl = 1000000000, size_c = 1, len = 1, lookups = 0, resolved = 0\<rparr>) \<and>
   fst (Add \<lparr>data = fmupd (1::nat) \<lparr>names = [''a''], expiration = 0\<rparr> fmempty,
             ttl = 1000000000, size_c = 1, len = 1, lookups = 0, resolved = 0\<rparr>
            (Some \<lparr>name = ''b'', ips = [1]\<rparr>) 5000000000) = False \<and>
   fmlookup (data (snd (Add \<lparr>data = fmupd (1::nat) \<lparr>names = [''a''], expiration = 0\<rparr> fmempty,
             ttl = 1000000000, size_c = 1, len = 1, lookups = 0, resolved = 0\<rparr>
            (Some \<lparr>name = ''b'', ips = [1]\<rparr>) 5000000000))) 1
     = Some \<lparr>names = [''a''], expiration = 0\<rparr> \<and>
   Time_Unix (Time_Add 5000000000 1000000000) = 6"
  by (simp add: Add_def len_data_def fcard_fempty fcard_finsert_if Time_Unix_def Time_Add_def)

subsection \<open>C2\<close>

text \<open>
  Claim C2, as the code has it. Let an entry be touched at time \<open>t0\<close>, by an accepted
  \<^verbatim>\<open>Add\<close> or by a lookup of \<^verbatim>\<open>Get\<close>, and let \<open>T\<close> be the ttl (not the
  least 64-bit value, whose negation wraps). A sweep at time \<open>t\<close> removes the entry
  exactly when the Unix second of \<open>t0 + T\<close> is at most the Unix second of \<open>t - T\<close>.
  So the sweep removes it whenever \<open>t0 + 2 T \<le> t\<close>, keeps it whenever
  \<open>t + 1 s \<le> t0 + 2 T\<close>, and for a ttl of at least two seconds keeps it at every time
  up to \<open>t0 + 1.5 T\<close>.
\<close>

theorem expire_removes_after_two_ttl:
  assumes touched:
    "(int (len_data (data c)) < size_c c \<and> a \<in> set (ips tr) \<and> c1 = snd (Add c (Some tr) t0)) \<or>
     (a |\<in>| fmdom (data c) \<and> a \<in> conn_addrs conns \<and> c1 = snd (Get c conns t0))"
    and ttl: "- 9223372036854775808 < sint (ttl c)"
  shows "(a |\<notin>| fmdom (data (expire c1 t)) \<longleftrightarrow>
            Time_Unix (t0 + sint (ttl c)) \<le> Time_Unix (t - sint (ttl c))) \<and>
         (t0 + 2 * sint (ttl c) \<le> t \<longrightarrow> a |\<notin>| fmdom (data (expire c1 t))) \<and>
         (t + 1000000000 \<le> t0 + 2 * sint (ttl c) \<longrightarrow> a |\<in>| fmdom (data (expire c1 t))) \<and>
         (2000000000 \<le> sint (ttl c) \<and> 2 * t \<le> 2 * t0 + 3 * sint (ttl c) \<longrightarrow>
            a |\<in>| fmdom (data (expire c1 t)))"
proof -
  let ?T = "sint (ttl c)"
  from touched_entry [OF touched] obtain v where v: "fmlookup (data c1) a = Some v"
    and exp: "expiration v = Time_Unix (t0 + ?T)" and ttl1: "ttl c1 = ttl c"
    by (auto simp: Time_Add_def)
  have deadline: "Time_Unix (Time_Add t (- ttl c1)) = Time_Unix (t - ?T)"
    by (simp add: Time_Add_def ttl1 sint_neg_Duration [OF ttl])
  have iff: "a |\<in>| fmdom (data (expire c1 t)) \<longleftrightarrow> Time_Unix (t - ?T) < Time_Unix (t0 + ?T)"
    by (simp add: fmdom_expire v exp deadline)
  have late: "a |\<notin>| fmdom (data (expire c1 t))" if "t0 + 2 * ?T \<le> t"
  proof -
    from that have "t0 + ?T \<le> t - ?T" by simp
    then have "Time_Unix (t0 + ?T) \<le> Time_Unix (t - ?T)" by (rule Time_Unix_mono)
    with iff show ?thesis by simp
  qed
  have early: "a |\<in>| fmdom (data (expire c1 t))" if "t + 1000000000 \<le> t0 + 2 * ?T"
  proof -
    from that have "(t - ?T) + 1000000000 \<le> t0 + ?T" by simp
    then have "Time_Unix ((t - ?T) + 1000000000) \<le> Time_Unix (t0 + ?T)" by (rule Time_Unix_mono)
    then have "Time_Unix (t - ?T) < Time_Unix (t0 + ?T)"
      by (simp only: Time_Unix_next_second)
    with iff show ?thesis by simp
  qed
  have half: "a |\<in>| fmdom (data (expire c1 t))"
    if "2000000000 \<le> ?T \<and> 2 * t \<le> 2 * t0 + 3 * ?T"
  proof -
    from that have "t + 1000000000 \<le> t0 + 2 * ?T" by simp
    then show ?thesis by (rule early)
  qed
  from iff late early half show ?thesis by auto
qed

theorem expire_removes_after_two_ttl_witness:
  "int (len_data (data (newReverseDNSCache 10 180000000000 :: nat reverseDNSCache))) <
     size_c (newReverseDNSCache 10 180000000000 :: nat reverseDNSCache) \<and>
   (7::nat) \<in> set (ips \<lparr>name = ''b'', ips = [7::nat]\<rparr>) \<and>
   - 9223372036854775808 < sint (ttl (newReverseDNSCache 10 180000000000 :: nat reverseDNSCache)) \<and>
   (0::int) + 2 * sint (ttl (newReverseDNSCache 10 180000000000 :: nat reverseDNSCache)) \<le> 360000000000 \<and>
   (7::nat) |\<notin>| fmdom (data (expire (snd (Add (newReverseDNSCache 10 180000000000)
        (Some \<lparr>name = ''b'', ips = [7::nat]\<rparr>) 0)) 360000000000))"
proof -
  have h1: "int (len_data (data (newReverseDNSCache 10 180000000000 :: nat reverseDNSCache))) <
     size_c (newReverseDNSCache 10 180000000000 :: nat reverseDNSCache)"
    by (simp add: newReverseDNSCache_def len_data_def fcard_fempty)
  have h2: "(7::nat) \<in> set (ips \<lparr>name = ''b'', ips = [7::nat]\<rparr>)" by simp
  have h3: "- 9223372036854775808 < sint (ttl (newReverseDNSCache 10 180000000000 :: nat reverseDNSCache))"
    by (simp add: newReverseDNSCache_def)
  have h4: "(0::int) + 2 * sint (ttl (newReverseDNSCache 10 180000000000 :: nat reverseDNSCache)) \<le> 360000000000"
    by (simp add: newReverseDNSCache_def)
  have touched:
    "(int (len_data (data (newReverseDNSCache 10 180000000000 :: nat reverseDNSCache))) <
        size_c (newReverseDNSCache 10 180000000000 :: nat reverseDNSCache) \<and>
      (7::nat) \<in> set (ips \<lparr>name = ''b'', ips = [7::nat]\<rparr>) \<and>
      snd (Add (newReverseDNSCache 10 180000000000) (Some \<lparr>name = ''b'', ips = [7::nat]\<rparr>) 0) =
      snd (Add (newReverseDNSCache 10 180000000000) (Some \<lparr>name = ''b'', ips = [7::nat]\<rparr>) 0)) \<or>
     ((7::nat) |\<in>| fmdom (data (newReverseDNSCache 10 180000000000 :: nat reverseDNSCache)) \<and>
      7 \<in> conn_addrs [] \<and>
      snd (Add (newReverseDNSCache 10 180000000000) (Some \<lparr>name = ''b'', ips = [7::nat]\<rparr>) 0) =
      snd (Get (newReverseDNSCache 10 180000000000) [] 0))"
    using h1 h2 by simp
  from expire_removes_after_two_ttl [OF touched h3, of 360000000000] h1 h2 h3 h4
  show ?thesis by simp
qed

text \<open>
  Claim C2 as stated fails, since both times are cut to whole seconds: with a ttl of
  180 s, an entry created at 0.5 s is removed by a sweep at 360.4 s, which is before
  \<open>t0 + 2 T\<close> = 360.5 s.
\<close>

theorem expire_removes_early_counterexample:
  "(7::nat) |\<notin>| fmdom (data (expire (snd (Add (newReverseDNSCache 10 180000000000)
        (Some \<lparr>name = ''b'', ips = [7::nat]\<rparr>) 500000000)) 360400000000)) \<and>
   \<not> ((500000000::int) + 2 * sint (180000000000 :: Duration) \<le> 360400000000)"
  by (simp add: Add_def len_data_def fcard_fempty newReverseDNSCache_def expire_def Add_body_def
      Time_Unix_def Time_Add_def Let_def fmlookup_dom_iff)

subsection \<open>C3\<close>

text \<open>
  Claim C3 fails on the code. \<^verbatim>\<open>merge\<close> returns without appending as soon as the
  binary search finds an index inside the list, that is, as soon as some name of the
  list is not smaller than the new name: the name \<open>a\<close> is absent from \<open>[b]\<close> and is
  not appended. The same happens through \<^verbatim>\<open>Add\<close>: after the names \<open>b\<close> and then
  \<open>a\<close> are added for one address, the entry holds \<open>[b]\<close> only.
\<close>

theorem merge_drops_smaller_name:
  "''a'' \<notin> set (names \<lparr>names = [''b''], expiration = 0\<rparr>) \<and>
   merge \<lparr>names = [''b''], expiration = 0\<rparr> ''a'' = \<lparr>names = [''b''], expiration = 0\<rparr> \<and>
   map_option names (fmlookup (data (snd
      (Add (snd (Add (newReverseDNSCache 10 60000000000) (Some \<lparr>name = ''b'', ips = [1::nat]\<rparr>) 0))
           (Some \<lparr>name = ''a'', ips = [1]\<rparr>) 0))) 1) = Some [''b'']"
  by (simp add: merge_def SearchStrings_def Search_def Search_loop.simps
      Add_def newReverseDNSCache_def len_data_def fcard_fempty fcard_finsert_if Add_body_def)

subsection \<open>C4\<close>

text \<open>
  Claim C4, as the code has it. \<^verbatim>\<open>Add\<close> returns true exactly when the translation
  is not nil and the map holds fewer than \<^verbatim>\<open>size\<close> keys. When it returns false
  the cache is unchanged; when it returns true every address of the translation has an
  entry that expires at the Unix time of \<open>now + ttl\<close>.
\<close>

theorem Add_result:
  "(fst (Add c tr now) \<longleftrightarrow> tr \<noteq> None \<and> int (len_data (data c)) < size_c c) \<and>
   (fst (Add c tr now) \<or> snd (Add c tr now) = c) \<and>
   (\<forall>t a. fst (Add c tr now) \<and> tr = Some t \<and> a \<in> set (ips t) \<longrightarrow>
      map_option expiration (fmlookup (data (snd (Add c tr now))) a) =
        Some (Time_Unix (Time_Add now (ttl c))))"
proof (cases "tr = None \<or> size_c c \<le> int (len_data (data c))")
  case True
  then show ?thesis by (auto simp: Add_rejected)
next
  case False
  then obtain t where t: "tr = Some t" and below: "int (len_data (data c)) < size_c c" by auto
  have "fst (Add c tr now)" by (simp add: t Add_accepted [OF below])
  moreover have "\<And>a. a \<in> set (ips t) \<Longrightarrow>
      map_option expiration (fmlookup (data (snd (Add c tr now))) a) =
        Some (Time_Unix (Time_Add now (ttl c)))"
    by (simp add: t fmlookup_Add [OF below] expiration_Add_entry)
  ultimately show ?thesis using t below by simp
qed

theorem Add_result_witness:
  "fst (Add (newReverseDNSCache 10 60000000000) (Some \<lparr>name = ''b'', ips = [1::nat]\<rparr>) 0) \<and>
   map_option expiration (fmlookup (data (snd
     (Add (newReverseDNSCache 10 60000000000) (Some \<lparr>name = ''b'', ips = [1::nat]\<rparr>) 0))) 1)
     = Some 60"
proof -
  have h: "fst (Add (newReverseDNSCache 10 60000000000) (Some \<lparr>name = ''b'', ips = [1::nat]\<rparr>) 0)"
    by (simp add: Add_def newReverseDNSCache_def len_data_def fcard_fempty Let_def)
  have "map_option expiration (fmlookup (data (snd
     (Add (newReverseDNSCache 10 60000000000) (Some \<lparr>name = ''b'', ips = [1::nat]\<rparr>) 0))) 1)
     = Some (Time_Unix (Time_Add 0 (ttl (newReverseDNSCache 10 60000000000 :: nat reverseDNSCache))))"
    using Add_result [of "newReverseDNSCache 10 60000000000" "Some \<lparr>name = ''b'', ips = [1::nat]\<rparr>" 0] h
    by simp
  with h show ?thesis by (simp add: Time_Unix_def Time_Add_def newReverseDNSCache_def)
qed

text \<open>
  Claim C4 as stated fails: for a translation with no address and a cache below its
  capacity, \<^verbatim>\<open>Add\<close> returns true and stores nothing.
\<close>

theorem Add_empty_translation_counterexample:
  "Add (newReverseDNSCache 1 1000000000 :: nat reverseDNSCache)
       (Some \<lparr>name = ''b'', ips = []\<rparr>) 5000000000 =
     (True, newReverseDNSCache 1 1000000000)"
  by (simp add: Add_def len_data_def fcard_fempty newReverseDNSCache_def)

subsection \<open>C5\<close>

text \<open>
  Claim C5, as the code has it. Let the cache be below its capacity and let no address of
  the translation be a key of the map. Then \<^verbatim>\<open>Add\<close> returns true, and a
  \<^verbatim>\<open>Get\<close> right after it, at any time, returns for every connection whose source
  (destination) is an address of the translation the source (destination) names
  \<open>[name]\<close>, which contain the name of the translation. The same holds when sweeps
  have run between the two calls, if the ttl is at least one second and every sweep ran
  at a time up to \<open>now + ttl\<close>.
\<close>

theorem Get_after_Add_returns_name:
  assumes "int (len_data (data c)) < size_c c"
    and "\<forall>a \<in> set (ips tr). a |\<notin>| fmdom (data c)"
    and "i < length conns"
  shows "fst (Add c (Some tr) now) \<and>
    (Source (conns ! i) \<in> set (ips tr) \<longrightarrow>
       Source_names (fst (Get (snd (Add c (Some tr) now)) conns now') ! i) = Some [name tr]) \<and>
    (Dest (conns ! i) \<in> set (ips tr) \<longrightarrow>
       Dest_names (fst (Get (snd (Add c (Some tr) now)) conns now') ! i) = Some [name tr]) \<and>
    (1000000000 \<le> sint (ttl c) \<and> (\<forall>t \<in> set ts. t \<le> now + sint (ttl c)) \<longrightarrow>
       (Source (conns ! i) \<in> set (ips tr) \<longrightarrow>
          Source_names (fst (Get (ticker_loop (snd (Add c (Some tr) now)) ts) conns now') ! i) =
            Some [name tr]) \<and>
       (Dest (conns ! i) \<in> set (ips tr) \<longrightarrow>
          Dest_names (fst (Get (ticker_loop (snd (Add c (Some tr) now)) ts) conns now') ! i) =
            Some [name tr]))"
proof -
  let ?c1 = "snd (Add c (Some tr) now)"
  let ?exp = "Time_Unix (Time_Add now (ttl c))"
  have entry: "\<And>a. a \<in> set (ips tr) \<Longrightarrow>
      fmlookup (data ?c1) a = Some \<lparr>names = [name tr], expiration = ?exp\<rparr>"
  proof -
    fix a assume a: "a \<in> set (ips tr)"
    with assms(2) have "fmlookup (data c) a = None" by (simp add: fmdom_notD)
    with a show "fmlookup (data ?c1) a = Some \<lparr>names = [name tr], expiration = ?exp\<rparr>"
      by (simp add: fmlookup_Add [OF assms(1)] Add_entry_def)
  qed
  have ok: "fst (Add c (Some tr) now)"
    by (simp add: Add_accepted [OF assms(1)])
  have pair: "\<And>c'. fst (Get c' conns now') ! i = pair_of (data c') (conns ! i)"
    using assms(3) by (simp add: Get_eq)
  have immediate: "\<And>a. a \<in> set (ips tr) \<Longrightarrow>
      map_option names (fmlookup (data ?c1) a) = Some [name tr]"
    by (simp add: entry)
  have swept: "map_option names (fmlookup (data (ticker_loop ?c1 ts)) a) = Some [name tr]"
    if ttl: "1000000000 \<le> sint (ttl c)" and ts: "\<forall>t \<in> set ts. t \<le> now + sint (ttl c)"
      and a: "a \<in> set (ips tr)" for a
  proof -
    have "\<forall>t \<in> set ts. Time_Unix (Time_Add t (- ttl ?c1)) <
            expiration \<lparr>names = [name tr], expiration = ?exp\<rparr>"
      using ts sweep_before_expiry_keeps [OF ttl] by (simp add: ttl_Add)
    from fmlookup_ticker_loop_kept [OF entry [OF a] this] show ?thesis by simp
  qed
  have "Source_names (fst (Get ?c1 conns now') ! i) =
          map_option names (fmlookup (data ?c1) (Source (conns ! i)))"
    and "Dest_names (fst (Get ?c1 conns now') ! i) =
          map_option names (fmlookup (data ?c1) (Dest (conns ! i)))"
    and "Source_names (fst (Get (ticker_loop ?c1 ts) conns now') ! i) =
          map_option names (fmlookup (data (ticker_loop ?c1 ts)) (Source (conns ! i)))"
    and "Dest_names (fst (Get (ticker_loop ?c1 ts) conns now') ! i) =
          map_option names (fmlookup (data (ticker_loop ?c1 ts)) (Dest (conns ! i)))"
    by (simp_all add: pair pair_of_def)
  with ok immediate swept show ?thesis by simp
qed

theorem Get_after_Add_returns_name_witness:
  "int (len_data (data (newReverseDNSCache 10 60000000000 :: nat reverseDNSCache))) <
     size_c (newReverseDNSCache 10 60000000000 :: nat reverseDNSCache) \<and>
   (4::nat) |\<notin>| fmdom (data (newReverseDNSCache 10 60000000000 :: nat reverseDNSCache)) \<and>
   (0::nat) < length [\<lparr>Source = 4::nat, Dest = 9\<rparr>] \<and>
   1000000000 \<le> sint (ttl (newReverseDNSCache 10 60000000000 :: nat reverseDNSCache)) \<and>
   (30000000000::int) \<le> 0 + sint (ttl (newReverseDNSCache 10 60000000000 :: nat reverseDNSCache)) \<and>
   Source_names (fst (Get (snd (Add (newReverseDNSCache 10 60000000000)
                                    (Some \<lparr>name = ''example.com'', ips = [4::nat]\<rparr>) 0))
                          [\<lparr>Source = 4, Dest = 9\<rparr>] 30000000000) ! 0) = Some [''example.com''] \<and>
   Source_names (fst (Get (ticker_loop (snd (Add (newReverseDNSCache 10 60000000000)
                                    (Some \<lparr>name = ''example.com'', ips = [4::nat]\<rparr>) 0))
                                       [30000000000])
                          [\<lparr>Source = 4, Dest = 9\<rparr>] 45000000000) ! 0) = Some [''example.com'']"
proof -
  have h1: "int (len_data (data (newReverseDNSCache 10 60000000000 :: nat reverseDNSCache))) <
     size_c (newReverseDNSCache 10 60000000000 :: nat reverseDNSCache)"
    by (simp add: newReverseDNSCache_def len_data_def fcard_fempty)
  have h2: "\<forall>a \<in> set (ips \<lparr>name = ''example.com'', ips = [4::nat]\<rparr>).
      a |\<notin>| fmdom (data (newReverseDNSCache 10 60000000000 :: nat reverseDNSCache))"
    by (simp add: newReverseDNSCache_def)
  have h3: "(0::nat) < length [\<lparr>Source = 4::nat, Dest = 9\<rparr>]" by simp
  have h4: "1000000000 \<le> sint (ttl (newReverseDNSCache 10 60000000000 :: nat reverseDNSCache))"
    and h5: "(30000000000::int) \<le> 0 + sint (ttl (newReverseDNSCache 10 60000000000 :: nat reverseDNSCache))"
    by (simp_all add: newReverseDNSCache_def)
  from Get_after_Add_returns_name [OF h1 h2 h3, of 0 30000000000 "[30000000000]"]
  have a: "Source_names (fst (Get (snd (Add (newReverseDNSCache 10 60000000000)
                                    (Some \<lparr>name = ''example.com'', ips = [4::nat]\<rparr>) 0))
                          [\<lparr>Source = 4, Dest = 9\<rparr>] 30000000000) ! 0) = Some [''example.com'']"
    by simp
  from Get_after_Add_returns_name [OF h1 h2 h3, of 0 45000000000 "[30000000000]"] h4 h5
  have b: "Source_names (fst (Get (ticker_loop (snd (Add (newReverseDNSCache 10 60000000000)
                                    (Some \<lparr>name = ''example.com'', ips = [4::nat]\<rparr>) 0))
                                       [30000000000])
                          [\<lparr>Source = 4, Dest = 9\<rparr>] 45000000000) ! 0) = Some [''example.com'']"
    by simp
  from h1 h2 h3 h4 h5 a b show ?thesis by simp
qed

text \<open>
  Claim C5 as stated fails for a ttl below one second, since the sweep compares whole
  seconds: with a ttl of 0.3 s, an entry added at 0.1 s is removed by a sweep at 0.35 s,
  and a \<^verbatim>\<open>Get\<close> at 0.36 s, before \<open>now + ttl\<close> = 0.4 s, returns no names for it.
\<close>

theorem Get_after_early_sweep_counterexample:
  "int (len_data (data (newReverseDNSCache 10 300000000 :: nat reverseDNSCache))) <
     size_c (newReverseDNSCache 10 300000000 :: nat reverseDNSCache) \<and>
   (4::nat) |\<notin>| fmdom (data (newReverseDNSCache 10 300000000 :: nat reverseDNSCache)) \<and>
   (100000000::int) \<le> 360000000 \<and>
   (360000000::int) < 100000000 + sint (300000000 :: Duration) \<and>
   Source_names (fst (Get (ticker_loop (snd (Add (newReverseDNSCache 10 300000000)
                                    (Some \<lparr>name = ''example.com'', ips = [4::nat]\<rparr>) 100000000))
                                       [350000000])
                          [\<lparr>Source = 4, Dest = 9\<rparr>] 360000000) ! 0) = None"
  by (simp add: Add_def Get_def getNamesForIP_def len_data_def fcard_fempty newReverseDNSCache_def
      expire_def Add_body_def Time_Unix_def Time_Add_def Let_def)

subsection \<open>C6\<close>

text \<open>
  Claim C6. Adding a translation a second time (the same name and the same set of
  addresses, visited in any order, at any time) leaves every entry with the names it
  had after the first \<^verbatim>\<open>Add\<close>. When the name lists of the cache were sorted and free
  of duplicates before, they still are after both calls.
\<close>

theorem Add_twice_same_names:
  assumes "name tr' = name tr" and "set (ips tr') = set (ips tr)"
    and "names_sorted (data c)"
  shows "map_option names (fmlookup (data (snd (Add (snd (Add c (Some tr) now)) (Some tr') now'))) a) =
           map_option names (fmlookup (data (snd (Add c (Some tr) now))) a) \<and>
         (\<forall>v. fmlookup (data (snd (Add (snd (Add c (Some tr) now)) (Some tr') now'))) a = Some v \<longrightarrow>
            distinct (names v) \<and> sorted (names v))"
proof -
  let ?c1 = "snd (Add c (Some tr) now)"
  let ?c2 = "snd (Add ?c1 (Some tr') now')"
  have "names_sorted (data ?c2)"
    by (intro names_sorted_Add assms(3))
  then have inv: "\<forall>v. fmlookup (data ?c2) a = Some v \<longrightarrow> distinct (names v) \<and> sorted (names v)"
    by (auto simp: names_sorted_def fmpred_iff)
  have "map_option names (fmlookup (data ?c2) a) = map_option names (fmlookup (data ?c1) a)"
  proof (cases "size_c ?c1 \<le> int (len_data (data ?c1))")
    case True
    then show ?thesis by (simp add: Add_rejected)
  next
    case False
    then have below1: "int (len_data (data ?c1)) < size_c ?c1" by simp
    show ?thesis
    proof (cases "size_c c \<le> int (len_data (data c))")
      case True
      then have "?c1 = c" by (simp add: Add_rejected)
      with True show ?thesis by (simp add: Add_rejected)
    next
      case False
      then have below: "int (len_data (data c)) < size_c c" by simp
      show ?thesis
      proof (cases "a \<in> set (ips tr)")
        case True
        then have "fmlookup (data ?c1) a =
            Some (Add_entry (name tr) (Time_Unix (Time_Add now (ttl c))) (fmlookup (data c) a))"
          by (simp add: fmlookup_Add [OF below])
        then show ?thesis using True assms(1,2)
          by (simp add: fmlookup_Add [OF below1] names_Add_entry_again)
      next
        case False
        with assms(2) show ?thesis by (simp add: fmlookup_Add [OF below1])
      qed
    qed
  qed
  with inv show ?thesis by simp
qed

theorem Add_twice_same_names_witness:
  "name \<lparr>name = ''a'', ips = [2, 1::nat]\<rparr> = name \<lparr>name = ''a'', ips = [1, 2::nat]\<rparr> \<and>
   set (ips \<lparr>name = ''a'', ips = [2, 1::nat]\<rparr>) = set (ips \<lparr>name = ''a'', ips = [1, 2::nat]\<rparr>) \<and>
   names_sorted (data (newReverseDNSCache 10 60000000000 :: nat reverseDNSCache)) \<and>
   map_option names (fmlookup (data (snd (Add (snd (Add (newReverseDNSCache 10 60000000000)
        (Some \<lparr>name = ''a'', ips = [1, 2::nat]\<rparr>) 0)) (Some \<lparr>name = ''a'', ips = [2, 1::nat]\<rparr>) 5))) 1)
     = Some [''a'']"
proof -
  have h1: "name \<lparr>name = ''a'', ips = [2, 1::nat]\<rparr> = name \<lparr>name = ''a'', ips = [1, 2::nat]\<rparr>"
    by simp
  have h2: "set (ips \<lparr>name = ''a'', ips = [2, 1::nat]\<rparr>) = set (ips \<lparr>name = ''a'', ips = [1, 2::nat]\<rparr>)"
    by auto
  have h3: "names_sorted (data (newReverseDNSCache 10 60000000000 :: nat reverseDNSCache))"
    by (simp add: names_sorted_def newReverseDNSCache_def)
  have one: "map_option names (fmlookup (data (snd (Add (newReverseDNSCache 10 60000000000)
        (Some \<lparr>name = ''a'', ips = [1, 2::nat]\<rparr>) 0))) 1) = Some [''a'']"
    by (simp add: Add_def newReverseDNSCache_def len_data_def fcard_fempty Let_def Add_body_def)
  from Add_twice_same_names [OF h1 h2 h3, of 0 5 1] one h1 h2 h3
  show ?thesis by simp
qed

subsection \<open>C7\<close>

text \<open>
  Claim C7. For every list of connections, \<^verbatim>\<open>Get\<close> returns as many name pairs as
  there are connections, in the order of the connections: the result is the list of
  connections mapped, one by one, to the names that the cache holds for the source and
  for the destination (a miss is \<open>None\<close>).
\<close>

theorem Get_one_pair_per_connection:
  "length (fst (Get c conns now)) = length conns \<and>
   fst (Get c conns now) = map (pair_of (data c)) conns"
  by (simp add: Get_eq)

subsection \<open>C8\<close>

text \<open>
  Claim C8. \<^verbatim>\<open>Get(conns, now)\<close> changes the map only at the addresses that occur
  as a source or a destination in \<open>conns\<close>, and there only the expiration, which
  becomes the Unix time of \<open>now + ttl\<close>. Every name list and the set of keys stay as
  they are, as do \<^verbatim>\<open>ttl\<close>, \<^verbatim>\<open>size\<close> and \<^verbatim>\<open>len\<close>. The list that
  \<^verbatim>\<open>getNamesForIP\<close> returns for a hit is the copy of the entry's names.
\<close>

theorem Get_changes_expirations_only:
  "fmlookup (data (snd (Get c conns now))) a =
     (if a \<in> conn_addrs conns
      then map_option (expiration_update (\<lambda>_. Time_Unix (Time_Add now (ttl c)))) (fmlookup (data c) a)
      else fmlookup (data c) a) \<and>
   map_option names (fmlookup (data (snd (Get c conns now))) a) = map_option names (fmlookup (data c) a) \<and>
   fmdom (data (snd (Get c conns now))) = fmdom (data c) \<and>
   ttl (snd (Get c conns now)) = ttl c \<and>
   size_c (snd (Get c conns now)) = size_c c \<and>
   len (snd (Get c conns now)) = len c \<and>
   fst (getNamesForIP d ip exp) = map_option names (fmlookup d ip) \<and>
   copy v = names v"
proof -
  have dom: "fmdom (data (snd (Get c conns now))) = fmdom (data c)"
    by (rule fset_eqI) (simp add: fmlookup_dom_iff fmlookup_Get)
  show ?thesis
    by (simp add: fmlookup_Get dom option.map_comp comp_def getNamesForIP_eq copy_def)
      (simp add: Get_eq)
qed

subsection \<open>C9\<close>

text \<open>
  Claim C9. A tick of \<^verbatim>\<open>pollStats\<close> on which reading the socket statistics fails
  leaves the counters of the snooper and the previous samples as they are. The next
  successful tick therefore adds the difference to the last recorded samples, and the
  loop ends in the same state as the loop without the failed ticks.
\<close>

theorem pollStats_failed_tick_skipped:
  "pollStats_tick (s, p) sourceStats (Inl err) = (s, p) \<and>
   pollStats_tick (pollStats_tick (s, p) sourceStats (Inl err)) sourceStats' (Inr socketStats) =
     (s\<lparr>polls := polls s + (Polls sourceStats' - prevPolls p),
        processed := processed s + (Packets sourceStats' - prevProcessed p),
        captured := captured s + (socket_Packets socketStats - prevCaptured p),
        dropped := dropped s + (socket_Drops socketStats - prevDropped p)\<rparr>,
      \<lparr>prevPolls = Polls sourceStats', prevProcessed = Packets sourceStats',
       prevCaptured = socket_Packets socketStats, prevDropped = socket_Drops socketStats\<rparr>) \<and>
   pollStats_loop (s, p) (Tick sourceStats (Inl err) # evs) = pollStats_loop (s, p) evs \<and>
   pollStats s' evs' = pollStats s' (filter (\<lambda>ev. \<not> failed ev) evs')"
  using pollStats_loop_skip [of _ evs']
  by (simp add: pollStats_tick_def pollStats_def)

subsection \<open>C10\<close>

text \<open>
  Claim C10. \<^verbatim>\<open>Get\<close> adds to \<^verbatim>\<open>resolved\<close> the number of connections whose
  destination address is in the cache, and to \<^verbatim>\<open>lookups\<close> the number of
  connections. A connection whose source is in the cache and whose destination is not
  counts as a lookup and not as resolved.
\<close>

theorem Get_resolved_counts_destinations:
  "resolved (snd (Get c conns now)) =
     resolved c + of_nat (length (filter (\<lambda>conn. Dest conn |\<in>| fmdom (data c)) conns)) \<and>
   lookups (snd (Get c conns now)) = lookups c + of_nat (length conns) \<and>
   (Source conn |\<in>| fmdom (data c) \<and> Dest conn |\<notin>| fmdom (data c) \<longrightarrow>
      resolved (snd (Get c [conn] now)) = resolved c \<and>
      lookups (snd (Get c [conn] now)) = lookups c + 1)"
  by (simp add: Get_eq)

theorem Get_resolved_counts_destinations_witness:
  "(1::nat) |\<in>| fmdom (fmupd 1 \<lparr>names = [''a''], expiration = 0\<rparr> fmempty) \<and>
   (2::nat) |\<notin>| fmdom (fmupd 1 \<lparr>names = [''a''], expiration = 0\<rparr> fmempty) \<and>
   resolved (snd (Get \<lparr>data = fmupd (1::nat) \<lparr>names = [''a''], expiration = 0\<rparr> fmempty,
                        ttl = 60000000000, size_c = 10, len = 1, lookups = 0, resolved = 0\<rparr>
                      [\<lparr>Source = 1, Dest = 2\<rparr>] 0)) = 0 \<and>
   lookups (snd (Get \<lparr>data = fmupd (1::nat) \<lparr>names = [''a''], expiration = 0\<rparr> fmempty,
                       ttl = 60000000000, size_c = 10, len = 1, lookups = 0, resolved = 0\<rparr>
                     [\<lparr>Source = 1, Dest = 2\<rparr>] 0)) = 1"
  using Get_resolved_counts_destinations
    [of "\<lparr>data = fmupd (1::nat) \<lparr>names = [''a''], expiration = 0\<rparr> fmempty,
          ttl = 60000000000, size_c = 10, len = 1, lookups = 0, resolved = 0\<rparr>"
        "[]" 0 "\<lparr>Source = 1, Dest = 2\<rparr>"]
  by simp

end
